theory Spec2Isabelle
  imports Main "HOL-Library.Word"
begin

section \<open>The RESP3 client writer of \<^verbatim>\<open>writer.go\<close>\<close>

text \<open>
  The Go file defines a \<^verbatim>\<open>Writer\<close> that embeds a \<^verbatim>\<open>*bufio.Writer\<close> and three
  methods that serialise a command as a RESP3 array of blob strings:
  \<^verbatim>\<open>SendCommands\<close> (typed arguments), \<^verbatim>\<open>WriteCommand\<close> (strings) and
  \<^verbatim>\<open>WriteByteCommand\<close> (byte slices).

  A Go \<^verbatim>\<open>string\<close> and a Go \<^verbatim>\<open>[]byte\<close> are both sequences of bytes and \<^verbatim>\<open>len\<close>
  counts bytes; an Isabelle \<^typ>\<open>char\<close> is one byte, so both are \<^typ>\<open>char list\<close> and
  \<^const>\<open>length\<close> is Go's \<^verbatim>\<open>len\<close>.
\<close>

subsection \<open>Errors\<close>

datatype error =
    ErrShortWrite       \<comment> \<open>\<^verbatim>\<open>io.ErrShortWrite\<close>, set by \<^verbatim>\<open>bufio\<close>\<close>
  | SinkError           \<comment> \<open>the error of the underlying \<^verbatim>\<open>io.Writer\<close>\<close>
  | Errorf string       \<comment> \<open>the value of \<^verbatim>\<open>fmt.Errorf\<close>, with its message\<close>

subsection \<open>The underlying \<^verbatim>\<open>io.Writer\<close>\<close>

text \<open>
  The sink behind the buffer is any \<^verbatim>\<open>io.Writer\<close>. It is modelled as the bytes it has
  received so far and the number of bytes it will still take before it fails
  (\<open>None\<close>: it never fails). A write that does not fit is a short write together
  with an error, as the contract of \<^verbatim>\<open>io.Writer\<close> demands.
\<close>

record sink =
  delivered :: "char list"
  room :: "nat option"

definition sink_Write :: "char list \<Rightarrow> sink \<Rightarrow> nat \<times> error option \<times> sink" where
  "sink_Write p s =
     (case room s of
        None \<Rightarrow> (length p, None, s\<lparr>delivered := delivered s @ p\<rparr>)
      | Some k \<Rightarrow>
          if length p \<le> k
          then (length p, None, s\<lparr>delivered := delivered s @ p, room := Some (k - length p)\<rparr>)
          else (k, Some SinkError, s\<lparr>delivered := delivered s @ take k p, room := Some 0\<rparr>))"

subsection \<open>\<^verbatim>\<open>bufio.Writer\<close>\<close>

text \<open>
  The methods \<^verbatim>\<open>WriteByte\<close>, \<^verbatim>\<open>WriteString\<close>, \<^verbatim>\<open>Write\<close> and \<^verbatim>\<open>Flush\<close> that
  \<^verbatim>\<open>writer.go\<close> calls are those of the embedded \<^verbatim>\<open>bufio.Writer\<close> of Go's standard
  library. Its state is the buffer \<^verbatim>\<open>b.buf\<close> of fixed length, of which the first
  \<^verbatim>\<open>b.n\<close> bytes are pending, the sticky error \<^verbatim>\<open>b.err\<close> and the sink \<^verbatim>\<open>b.wr\<close>.
  Here \<open>buf\<close> is the pending part \<^verbatim>\<open>b.buf[0:b.n]\<close> and \<open>bufsize\<close> is \<^verbatim>\<open>len(b.buf)\<close>.
\<close>

record writer =
  buf :: "char list"
  bufsize :: nat
  err :: "error option"
  wr :: sink

definition Available :: "writer \<Rightarrow> nat" where
  "Available b = bufsize b - length (buf b)"

definition Buffered :: "writer \<Rightarrow> nat" where
  "Buffered b = length (buf b)"

text \<open>
  \<^verbatim>\<open>Flush\<close>: nothing happens under a sticky error or with an empty buffer; otherwise
  the pending bytes go to the sink, and after a failure the bytes the sink did not take
  stay pending and the error sticks.
\<close>

definition Flush :: "writer \<Rightarrow> error option \<times> writer" where
  "Flush b =
     (if err b \<noteq> None then (err b, b)
      else if buf b = [] then (None, b)
      else
        (case sink_Write (buf b) (wr b) of (n, e, s) \<Rightarrow>
           (let e' = (if n < length (buf b) \<and> e = None then Some ErrShortWrite else e)
            in if e' \<noteq> None
               then (e', b\<lparr>buf := drop n (buf b), err := e', wr := s\<rparr>)
               else (None, b\<lparr>buf := [], wr := s\<rparr>))))"

text \<open>
  \<^verbatim>\<open>Write\<close>: while the data does not fit into the free part of the buffer and no error
  has occurred, a write into an empty buffer goes straight to the sink, and any other
  fills the buffer and flushes it; what remains is appended to the buffer. The source
  ignores the returned count and error, so the model returns the writer only.
\<close>

function Write :: "char list \<Rightarrow> writer \<Rightarrow> writer" where
  "Write p b =
     (if length p > Available b \<and> err b = None then
        (if Buffered b = 0 then
           (case sink_Write p (wr b) of (n, e, s) \<Rightarrow>
              Write (drop n p) (b\<lparr>err := e, wr := s\<rparr>))
         else
           (let n = min (Available b) (length p) in
              Write (drop n p) (snd (Flush (b\<lparr>buf := buf b @ take n p\<rparr>)))))
      else if err b \<noteq> None then b
      else b\<lparr>buf := buf b @ p\<rparr>)"
  by pat_completeness auto
termination
  by (relation "measure (\<lambda>(p, b). if err b = None
                         then 1 + 2 * length p + (if buf b = [] then 0 else 1) else 0)")
     (auto simp: sink_Write_def Flush_def Available_def Buffered_def Let_def
           split: option.splits if_splits prod.splits)

declare Write.simps [simp del]

text \<open>
  \<^verbatim>\<open>WriteString\<close> runs the same loop as \<^verbatim>\<open>Write\<close> on the bytes of the string. (For a
  sink without a \<^verbatim>\<open>WriteString\<close> method of its own, \<^verbatim>\<open>bufio\<close> fills and flushes the
  buffer also when it is empty, which cuts a long string into other pieces for the sink
  and sends the same bytes.)
\<close>

definition WriteString :: "string \<Rightarrow> writer \<Rightarrow> writer" where
  "WriteString s b = Write s b"

definition WriteByte :: "char \<Rightarrow> writer \<Rightarrow> writer" where
  "WriteByte c b =
     (if err b \<noteq> None then b
      else if Available b \<le> 0 then
        (case Flush b of
           (Some e, b') \<Rightarrow> b'
         | (None, b') \<Rightarrow> b'\<lparr>buf := buf b' @ [c]\<rparr>)
      else b\<lparr>buf := buf b @ [c]\<rparr>)"

subsection \<open>\<^verbatim>\<open>strconv\<close> and \<^verbatim>\<open>fmt\<close>\<close>

text \<open>
  \<^verbatim>\<open>strconv.FormatInt(i, 10)\<close> writes the decimal digits of the magnitude from the least
  significant one backwards into a buffer and puts a minus sign in front of a negative
  value; \<^verbatim>\<open>strconv.Itoa(i)\<close> is \<^verbatim>\<open>FormatInt(int64(i), 10)\<close>. A 64-bit integer is a
  \<^typ>\<open>64 word\<close> read by \<^const>\<open>sint\<close>; a length is never negative and always fits, so
  \<^verbatim>\<open>Itoa\<close> takes the integer itself.
\<close>

fun formatBits :: "nat \<Rightarrow> string \<Rightarrow> string" where
  "formatBits u a =
     (if u \<ge> 10 then formatBits (u div 10) (char_of (48 + u mod 10) # a)
      else char_of (48 + u) # a)"

declare formatBits.simps [simp del]

definition Itoa :: "int \<Rightarrow> string" where
  "Itoa i = (if i < 0 then CHR ''-'' # formatBits (nat (- i)) [] else formatBits (nat i) [])"

definition FormatInt :: "64 word \<Rightarrow> string" where
  "FormatInt v = Itoa (sint v)"

definition FormatUint :: "nat \<Rightarrow> string" where
  "FormatUint u = formatBits u []"

definition FormatBool :: "bool \<Rightarrow> string" where
  "FormatBool b = (if b then ''true'' else ''false'')"

text \<open>
  Floating-point numbers are kept as their IEEE 754 bit patterns. The routine
  \<^verbatim>\<open>strconv.FormatFloat(f, fmt, prec, bitSize)\<close> and the conversion \<^verbatim>\<open>float64(v)\<close> of a
  32-bit float are not part of \<^verbatim>\<open>writer.go\<close>; every operation that may meet a float
  takes them as a parameter.
\<close>

record strconv_float =
  FormatFloat :: "64 word \<Rightarrow> char \<Rightarrow> int \<Rightarrow> nat \<Rightarrow> string"
  float64 :: "32 word \<Rightarrow> 64 word"

subsection \<open>Arguments of \<^verbatim>\<open>SendCommands\<close>\<close>

text \<open>
  \<^verbatim>\<open>SendCommands\<close> takes values of the empty interface, so an argument is a value of any
  Go type. The datatype has one constructor for each type the type switch names, and,
  of the types it does not name, the other integer types, \<^verbatim>\<open>nil\<close> and a slice of
  strings. The native \<^verbatim>\<open>int\<close> and \<^verbatim>\<open>uint\<close> are taken at 64 bits; the source widens
  an \<^verbatim>\<open>int\<close> to \<^verbatim>\<open>int64\<close> before it formats it.
\<close>

datatype arg =
    GoString string
  | GoInt64 "64 word"
  | GoInt "64 word"
  | GoBytes "char list"
  | GoBool bool
  | GoFloat32 "32 word"
  | GoFloat64 "64 word"
  | GoInt8 "8 word"
  | GoInt16 "16 word"
  | GoInt32 "32 word"
  | GoUint "64 word"
  | GoUint8 "8 word"
  | GoUint16 "16 word"
  | GoUint32 "32 word"
  | GoUint64 "64 word"
  | GoNil
  | GoStrings "string list"

text \<open>
  The verb \<^verbatim>\<open>%v\<close> of \<^verbatim>\<open>fmt\<close>: a string as it is, an integer in decimal, a boolean as
  \<^verbatim>\<open>true\<close> or \<^verbatim>\<open>false\<close>, a float by \<^verbatim>\<open>%g\<close> at its own width, \<^verbatim>\<open>nil\<close> as
  \<^verbatim>\<open><nil>\<close>, and a slice as its elements between brackets, separated by spaces. The
  source formats with it the arguments of the default branch only.
\<close>

fun join_sp :: "string list \<Rightarrow> string" where
  "join_sp [] = []"
| "join_sp [x] = x"
| "join_sp (x # y # ys) = x @ CHR '' '' # join_sp (y # ys)"

fun Sprint_v :: "strconv_float \<Rightarrow> arg \<Rightarrow> string" where
  "Sprint_v sc (GoString v) = v"
| "Sprint_v sc (GoInt64 v) = FormatInt v"
| "Sprint_v sc (GoInt v) = FormatInt v"
| "Sprint_v sc (GoBytes v) = CHR ''['' # join_sp (map (\<lambda>c. FormatUint (of_char c)) v) @ '']''"
| "Sprint_v sc (GoBool v) = FormatBool v"
| "Sprint_v sc (GoFloat32 v) = FormatFloat sc (float64 sc v) CHR ''g'' (- 1) 32"
| "Sprint_v sc (GoFloat64 v) = FormatFloat sc v CHR ''g'' (- 1) 64"
| "Sprint_v sc (GoInt8 v) = Itoa (sint v)"
| "Sprint_v sc (GoInt16 v) = Itoa (sint v)"
| "Sprint_v sc (GoInt32 v) = Itoa (sint v)"
| "Sprint_v sc (GoUint v) = FormatUint (unat v)"
| "Sprint_v sc (GoUint8 v) = FormatUint (unat v)"
| "Sprint_v sc (GoUint16 v) = FormatUint (unat v)"
| "Sprint_v sc (GoUint32 v) = FormatUint (unat v)"
| "Sprint_v sc (GoUint64 v) = FormatUint (unat v)"
| "Sprint_v sc GoNil = ''<nil>''"
| "Sprint_v sc (GoStrings v) = CHR ''['' # join_sp v @ '']''"

subsection \<open>The constants of the package\<close>

text \<open>
  Modelled from the spec: the constants \<^verbatim>\<open>TypeArray\<close>, \<^verbatim>\<open>TypeBlobString\<close> and
  \<^verbatim>\<open>CRLFByte\<close> are declared in a file of the package that is not among the sources.
  The specification gives the array marker as \<^verbatim>\<open>*\<close>, the blob-string marker as \<^verbatim>\<open>$\<close>
  and the terminator as the two bytes carriage return, line feed.
\<close>

definition TypeArray :: char where
  "TypeArray = CHR ''*''"

definition TypeBlobString :: char where
  "TypeBlobString = CHR ''$''"

definition CRLFByte :: "char list" where
  "CRLFByte = [CHR 0x0D, CHR 0x0A]"

subsection \<open>\<^verbatim>\<open>writer.go\<close>\<close>

text \<open>
  \<^verbatim>\<open>NewWriter\<close> wraps the sink into a \<^verbatim>\<open>bufio.Writer\<close> of the default size, 4096 bytes.
\<close>

definition NewWriter :: "sink \<Rightarrow> writer" where
  "NewWriter s = \<lparr>buf = [], bufsize = 4096, err = None, wr = s\<rparr>"

definition writeString :: "string \<Rightarrow> writer \<Rightarrow> writer" where
  "writeString str w =
     (let w = WriteByte TypeBlobString w;
          w = WriteString (Itoa (int (length str))) w;
          w = Write CRLFByte w;
          w = WriteString str w;
          w = Write CRLFByte w
      in w)"

text \<open>
  The loop of \<^verbatim>\<open>SendCommands\<close> over its arguments. The default branch returns the
  error at once, with the writer as the earlier arguments left it; the result
  \<open>None\<close> says that the loop ran to its end.
\<close>

fun SendCommands_args :: "strconv_float \<Rightarrow> arg list \<Rightarrow> writer \<Rightarrow> error option \<times> writer" where
  "SendCommands_args sc [] w = (None, w)"
| "SendCommands_args sc (arg # args) w =
     (case arg of
        GoString v \<Rightarrow> SendCommands_args sc args (writeString v w)
      | GoInt64 v \<Rightarrow> SendCommands_args sc args (writeString (FormatInt v) w)
      | GoInt v \<Rightarrow> SendCommands_args sc args (writeString (FormatInt v) w)
      | GoBytes v \<Rightarrow> SendCommands_args sc args (writeString v w)
      | GoBool v \<Rightarrow> SendCommands_args sc args (writeString (FormatBool v) w)
      | GoFloat32 v \<Rightarrow>
          SendCommands_args sc args
            (writeString (FormatFloat sc (float64 sc v) CHR ''g'' (- 1) 64) w)
      | GoFloat64 v \<Rightarrow>
          SendCommands_args sc args (writeString (FormatFloat sc v CHR ''g'' (- 1) 64) w)
      | _ \<Rightarrow> (Some (Errorf (''unsupported data type: '' @ Sprint_v sc arg)), w))"

definition SendCommands :: "strconv_float \<Rightarrow> arg list \<Rightarrow> writer \<Rightarrow> error option \<times> writer" where
  "SendCommands sc args w =
     (let w = WriteByte TypeArray w;
          w = WriteString (Itoa (int (length args))) w;
          w = Write CRLFByte w
      in case SendCommands_args sc args w of
           (Some e, w') \<Rightarrow> (Some e, w')
         | (None, w') \<Rightarrow> Flush w')"

fun WriteCommand_args :: "string list \<Rightarrow> writer \<Rightarrow> writer" where
  "WriteCommand_args [] w = w"
| "WriteCommand_args (arg # args) w =
     (let w = WriteByte TypeBlobString w;
          w = WriteString (Itoa (int (length arg))) w;
          w = Write CRLFByte w;
          w = WriteString arg w;
          w = Write CRLFByte w
      in WriteCommand_args args w)"

definition WriteCommand :: "string list \<Rightarrow> writer \<Rightarrow> error option \<times> writer" where
  "WriteCommand args w =
     (let w = WriteByte TypeArray w;
          w = WriteString (Itoa (int (length args))) w;
          w = Write CRLFByte w;
          w = WriteCommand_args args w
      in Flush w)"

fun WriteByteCommand_args :: "char list list \<Rightarrow> writer \<Rightarrow> writer" where
  "WriteByteCommand_args [] w = w"
| "WriteByteCommand_args (arg # args) w =
     (let w = WriteByte TypeBlobString w;
          w = WriteString (Itoa (int (length arg))) w;
          w = Write CRLFByte w;
          w = Write arg w;
          w = Write CRLFByte w
      in WriteByteCommand_args args w)"

definition WriteByteCommand :: "char list list \<Rightarrow> writer \<Rightarrow> error option \<times> writer" where
  "WriteByteCommand args w =
     (let w = WriteByte TypeArray w;
          w = WriteString (Itoa (int (length args))) w;
          w = Write CRLFByte w;
          w = WriteByteCommand_args args w
      in Flush w)"



subsection \<open>The header common to the three methods\<close>

text \<open>
  Each of the three methods begins with the same three writes: the array marker, the
  number of arguments in decimal and the terminator.
\<close>

definition write_header :: "nat \<Rightarrow> writer \<Rightarrow> writer" where
  "write_header n w = Write CRLFByte (WriteString (Itoa (int n)) (WriteByte TypeArray w))"

subsection \<open>What the type switch accepts\<close>

text \<open>
  The branches of the type switch of \<^verbatim>\<open>SendCommands\<close>, read off as two functions:
  the text a supported argument is written as, and whether an argument is supported at
  all. The error of the default branch is named as well.
\<close>

fun payload :: "strconv_float \<Rightarrow> arg \<Rightarrow> string option" where
  "payload sc (GoString v) = Some v"
| "payload sc (GoInt64 v) = Some (FormatInt v)"
| "payload sc (GoInt v) = Some (FormatInt v)"
| "payload sc (GoBytes v) = Some v"
| "payload sc (GoBool v) = Some (FormatBool v)"
| "payload sc (GoFloat32 v) = Some (FormatFloat sc (float64 sc v) CHR ''g'' (- 1) 64)"
| "payload sc (GoFloat64 v) = Some (FormatFloat sc v CHR ''g'' (- 1) 64)"
| "payload sc _ = None"

fun supported :: "arg \<Rightarrow> bool" where
  "supported (GoString v) = True"
| "supported (GoInt64 v) = True"
| "supported (GoInt v) = True"
| "supported (GoBytes v) = True"
| "supported (GoBool v) = True"
| "supported (GoFloat32 v) = True"
| "supported (GoFloat64 v) = True"
| "supported _ = False"

definition unsupported_error :: "strconv_float \<Rightarrow> arg \<Rightarrow> error" where
  "unsupported_error sc a = Errorf (''unsupported data type: '' @ Sprint_v sc a)"

text \<open>
  The integer types of Go among the arguments.
\<close>

fun integer_shape :: "arg \<Rightarrow> bool" where
  "integer_shape (GoInt64 v) = True"
| "integer_shape (GoInt v) = True"
| "integer_shape (GoInt8 v) = True"
| "integer_shape (GoInt16 v) = True"
| "integer_shape (GoInt32 v) = True"
| "integer_shape (GoUint v) = True"
| "integer_shape (GoUint8 v) = True"
| "integer_shape (GoUint16 v) = True"
| "integer_shape (GoUint32 v) = True"
| "integer_shape (GoUint64 v) = True"
| "integer_shape _ = False"

text \<open>
  A value for the float routines in examples whose arguments hold no float: there the
  routines are never called.
\<close>

definition strconv_unused :: strconv_float where
  "strconv_unused = \<lparr>FormatFloat = (\<lambda>f fmt prec bitSize. []), float64 = (\<lambda>v. 0)\<rparr>"

subsection \<open>The state of a writer, as the properties speak of it\<close>

text \<open>
  A writer is healthy when no error sticks to it and its sink never fails. Its stream
  is all it has been given so far: what the sink has received, then what is pending.
  A writer is bounded when its pending bytes fit its buffer, as \<^verbatim>\<open>bufio\<close> keeps it.
  \<open>sent w out\<close> is the writer \<open>w\<close> after \<open>out\<close> was written to it and everything
  was flushed; \<open>emitted w w'\<close> is what was added to the stream between \<open>w\<close> and \<open>w'\<close>.
\<close>

definition healthy :: "writer \<Rightarrow> bool" where
  "healthy b = (err b = None \<and> room (wr b) = None)"

definition stream :: "writer \<Rightarrow> char list" where
  "stream b = delivered (wr b) @ buf b"

definition bounded :: "writer \<Rightarrow> bool" where
  "bounded b = (0 < bufsize b \<and> length (buf b) \<le> bufsize b)"

definition sent :: "writer \<Rightarrow> char list \<Rightarrow> writer" where
  "sent w out = w\<lparr>buf := [], wr := (wr w)\<lparr>delivered := stream w @ out\<rparr>\<rparr>"


subsection \<open>The wire frames of the specification\<close>

text \<open>
  The specification's framing: a blob-string frame is the blob-string marker, the
  decimal byte length of the payload, the terminator, the payload and the terminator; an
  array frame is the array marker, the decimal count and the terminator, followed by the
  frames of its elements.
\<close>

definition blob_string_frame :: "char list \<Rightarrow> char list" where
  "blob_string_frame p = TypeBlobString # Itoa (int (length p)) @ CRLFByte @ p @ CRLFByte"

definition array_frame_header :: "nat \<Rightarrow> char list" where
  "array_frame_header n = TypeArray # Itoa (int n) @ CRLFByte"

definition command_frame :: "char list list \<Rightarrow> char list" where
  "command_frame ps = array_frame_header (length ps) @ concat (map blob_string_frame ps)"

text \<open>
  Decimal text: a digit is a byte from \<^verbatim>\<open>0\<close> to \<^verbatim>\<open>9\<close>; the value of a digit sequence;
  canonical digits have no leading zero (the single digit \<^verbatim>\<open>0\<close> apart); a canonical
  decimal is canonical digits with an optional minus sign, and never \<^verbatim>\<open>-0\<close>.
\<close>

definition is_digit :: "char \<Rightarrow> bool" where
  "is_digit c = (48 \<le> (of_char c :: nat) \<and> (of_char c :: nat) \<le> 57)"

definition decimal_value :: "string \<Rightarrow> nat" where
  "decimal_value s = foldl (\<lambda>v c. 10 * v + (of_char c - 48)) 0 s"




text \<open>
  Reading the frames back, by the declared numbers alone: a count is a non-empty digit
  sequence up to the terminator; a blob string is the marker, a count, as many bytes as
  the count says, whatever they are, and the terminator; a command is the array marker, a
  count and that many blob strings. Each reader returns what it read and the rest of the
  input.
\<close>

definition read_count :: "char list \<Rightarrow> (nat \<times> char list) option" where
  "read_count s =
     (let ds = takeWhile is_digit s; r = dropWhile is_digit s
      in if ds \<noteq> [] \<and> take 2 r = CRLFByte then Some (decimal_value ds, drop 2 r) else None)"

definition read_blob_string :: "char list \<Rightarrow> (char list \<times> char list) option" where
  "read_blob_string s =
     (case s of
        [] \<Rightarrow> None
      | c # s' \<Rightarrow>
          if c \<noteq> TypeBlobString then None
          else (case read_count s' of
                  None \<Rightarrow> None
                | Some (n, r) \<Rightarrow>
                    if take 2 (drop n r) = CRLFByte then Some (take n r, drop (n + 2) r)
                    else None))"

fun read_blob_strings :: "nat \<Rightarrow> char list \<Rightarrow> (char list list \<times> char list) option" where
  "read_blob_strings 0 s = Some ([], s)"
| "read_blob_strings (Suc k) s =
     (case read_blob_string s of
        None \<Rightarrow> None
      | Some (p, r) \<Rightarrow>
          (case read_blob_strings k r of
             None \<Rightarrow> None
           | Some (ps, r') \<Rightarrow> Some (p # ps, r')))"

definition read_command :: "char list \<Rightarrow> (char list list \<times> char list) option" where
  "read_command s =
     (case s of
        [] \<Rightarrow> None
      | c # s' \<Rightarrow>
          if c \<noteq> TypeArray then None
          else (case read_count s' of
                  None \<Rightarrow> None
                | Some (n, r) \<Rightarrow> read_blob_strings n r))"

text \<open>
  For the examples: the two terminator bytes written out, and a sink that has received
  nothing and never fails.
\<close>

abbreviation CRLF :: "char list" where
  "CRLF \<equiv> [CHR 0x0D, CHR 0x0A]"

definition empty_sink :: sink where
  "empty_sink = \<lparr>delivered = [], room = None\<rparr>"

section \<open>Properties of the buffered writer\<close>

lemma Flush_healthy:
  assumes "healthy b"
  shows "Flush b = (None, b\<lparr>buf := [], wr := (wr b)\<lparr>delivered := stream b\<rparr>\<rparr>)"
  using assms by (simp add: healthy_def stream_def Flush_def sink_Write_def)

lemma Write_err: "err b \<noteq> None \<Longrightarrow> Write p b = b"
  by (subst Write.simps) auto

lemma Write_fits: "err b = None \<Longrightarrow> length p \<le> Available b \<Longrightarrow> Write p b = b\<lparr>buf := buf b @ p\<rparr>"
  by (subst Write.simps) simp

lemma Write_healthy:
  "healthy b \<Longrightarrow> healthy (Write p b) \<and> stream (Write p b) = stream b @ p \<and> bufsize (Write p b) = bufsize b"
proof (induction p b rule: Write.induct)
  case (1 p b)
  show ?case
  proof (cases "length p > Available b")
    case False
    with "1.prems" show ?thesis
      by (simp add: Write.simps [of p b] healthy_def stream_def)
  next
    case big: True
    show ?thesis
    proof (cases "Buffered b = 0")
      case True
      let ?b' = "b\<lparr>err := None, wr := (wr b)\<lparr>delivered := delivered (wr b) @ p\<rparr>\<rparr>"
      have sw: "sink_Write p (wr b) = (length p, None, (wr b)\<lparr>delivered := delivered (wr b) @ p\<rparr>)"
        using "1.prems" by (simp add: sink_Write_def healthy_def)
      have "Write p b = Write [] ?b'"
        using big True "1.prems" by (simp add: Write.simps [of p b] sw healthy_def)
      also have "\<dots> = ?b'"
        by (simp add: Write.simps [of "[]"])
      finally show ?thesis
        using "1.prems" True by (simp add: healthy_def stream_def Buffered_def)
    next
      case False
      define n where "n = min (Available b) (length p)"
      define b1 where "b1 = b\<lparr>buf := buf b @ take n p\<rparr>"
      have h1: "healthy b1" using "1.prems" by (simp add: b1_def healthy_def)
      have fl: "Flush b1 = (None, b1\<lparr>buf := [], wr := (wr b1)\<lparr>delivered := stream b1\<rparr>\<rparr>)"
        by (rule Flush_healthy [OF h1])
      define b2 where "b2 = snd (Flush b1)"
      have h2: "healthy b2" using h1 by (simp add: b2_def fl healthy_def)
      have eq: "Write p b = Write (drop n p) b2"
        using big False "1.prems"
        by (simp add: Write.simps [of p b] healthy_def Let_def n_def b1_def b2_def)
      have ih: "healthy (Write (drop n p) b2) \<and> stream (Write (drop n p) b2) = stream b2 @ drop n p
                 \<and> bufsize (Write (drop n p) b2) = bufsize b2"
        using "1.IH"(2) [OF _ False n_def] big "1.prems" h2
        by (simp add: healthy_def b2_def b1_def)
      have "stream b2 = stream b @ take n p"
        unfolding b2_def fl by (simp add: stream_def b1_def)
      moreover have "bufsize b2 = bufsize b"
        unfolding b2_def fl by (simp add: b1_def)
      ultimately show ?thesis using ih eq by simp
    qed
  qed
qed

lemma WriteByte_healthy:
  assumes "healthy b"
  shows "healthy (WriteByte c b) \<and> stream (WriteByte c b) = stream b @ [c]
         \<and> bufsize (WriteByte c b) = bufsize b"
proof (cases "Available b \<le> 0")
  case True
  then show ?thesis
    using assms unfolding WriteByte_def Flush_healthy [OF assms]
    by (simp add: healthy_def stream_def)
next
  case False
  then show ?thesis
    using assms by (simp add: WriteByte_def healthy_def stream_def)
qed

lemma WriteByte_err: "err b \<noteq> None \<Longrightarrow> WriteByte c b = b"
  by (simp add: WriteByte_def)

lemma WriteByte_fits:
  "err b = None \<Longrightarrow> length (buf b) + 1 \<le> bufsize b \<Longrightarrow> WriteByte c b = b\<lparr>buf := buf b @ [c]\<rparr>"
  by (simp add: WriteByte_def Available_def)

lemma Write_fits_buffer:
  "err b = None \<Longrightarrow> length (buf b) + length p \<le> bufsize b \<Longrightarrow> Write p b = b\<lparr>buf := buf b @ p\<rparr>"
  by (rule Write_fits) (simp_all add: Available_def)

lemma writeString_healthy:
  assumes "healthy w"
  shows "healthy (writeString p w) \<and> stream (writeString p w) = stream w @ blob_string_frame p
         \<and> bufsize (writeString p w) = bufsize w"
proof -
  define w1 where "w1 = WriteByte TypeBlobString w"
  define w2 where "w2 = Write (Itoa (int (length p))) w1"
  define w3 where "w3 = Write CRLFByte w2"
  define w4 where "w4 = Write p w3"
  define w5 where "w5 = Write CRLFByte w4"
  have eq: "writeString p w = w5"
    by (simp add: writeString_def WriteString_def w1_def w2_def w3_def w4_def w5_def)
  have 1: "healthy w1 \<and> stream w1 = stream w @ [TypeBlobString] \<and> bufsize w1 = bufsize w"
    unfolding w1_def by (rule WriteByte_healthy [OF assms])
  have 2: "healthy w2 \<and> stream w2 = stream w1 @ Itoa (int (length p)) \<and> bufsize w2 = bufsize w1"
    unfolding w2_def using 1 by (intro Write_healthy) simp
  have 3: "healthy w3 \<and> stream w3 = stream w2 @ CRLFByte \<and> bufsize w3 = bufsize w2"
    unfolding w3_def using 2 by (intro Write_healthy) simp
  have 4: "healthy w4 \<and> stream w4 = stream w3 @ p \<and> bufsize w4 = bufsize w3"
    unfolding w4_def using 3 by (intro Write_healthy) simp
  have 5: "healthy w5 \<and> stream w5 = stream w4 @ CRLFByte \<and> bufsize w5 = bufsize w4"
    unfolding w5_def using 4 by (intro Write_healthy) simp
  show ?thesis
    unfolding eq using 1 2 3 4 5 by (simp add: blob_string_frame_def)
qed

lemma writeString_err: "err w \<noteq> None \<Longrightarrow> writeString p w = w"
  by (simp add: writeString_def WriteString_def Let_def WriteByte_err Write_err)

lemma writeString_fits:
  assumes "err w = None" and "length (buf w) + length (blob_string_frame p) \<le> bufsize w"
  shows "writeString p w = w\<lparr>buf := buf w @ blob_string_frame p\<rparr>"
proof -
  have len: "length (buf w) + (1 + length (Itoa (int (length p))) + length CRLFByte + length p
               + length CRLFByte) \<le> bufsize w"
    using assms(2) by (simp add: blob_string_frame_def)
  show ?thesis
    using assms(1) len
    by (simp add: writeString_def WriteString_def Let_def WriteByte_fits Write_fits_buffer
                  blob_string_frame_def)
qed

lemma payload_None: "payload sc a = None \<longleftrightarrow> \<not> supported a"
  by (cases a) simp_all

lemma SendCommands_args_Cons:
  "SendCommands_args sc (a # args) w =
     (case payload sc a of
        None \<Rightarrow> (Some (unsupported_error sc a), w)
      | Some p \<Rightarrow> SendCommands_args sc args (writeString p w))"
  by (cases a) (simp_all add: unsupported_error_def)

lemma SendCommands_args_eq:
  "SendCommands_args sc args w =
     (map_option (unsupported_error sc) (find (\<lambda>a. \<not> supported a) args),
      fold writeString (map (the \<circ> payload sc) (takeWhile supported args)) w)"
proof (induction args arbitrary: w)
  case Nil
  show ?case by simp
next
  case (Cons a args)
  show ?case
  proof (cases "payload sc a")
    case None
    then have "\<not> supported a" by (simp add: payload_None)
    then show ?thesis
      unfolding SendCommands_args_Cons using None by simp
  next
    case (Some p)
    then have "supported a" using payload_None [of sc a] by simp
    then show ?thesis
      unfolding SendCommands_args_Cons using Some Cons.IH by simp
  qed
qed

lemma WriteCommand_args_eq: "WriteCommand_args args w = fold writeString args w"
  by (induction args arbitrary: w) (simp_all add: writeString_def Let_def)

lemma WriteByteCommand_args_eq: "WriteByteCommand_args args w = fold writeString args w"
  by (induction args arbitrary: w) (simp_all add: writeString_def WriteString_def Let_def)

lemma fold_writeString_healthy:
  "healthy w \<Longrightarrow>
     healthy (fold writeString ps w)
     \<and> stream (fold writeString ps w) = stream w @ concat (map blob_string_frame ps)
     \<and> bufsize (fold writeString ps w) = bufsize w"
proof (induction ps arbitrary: w)
  case Nil
  then show ?case by simp
next
  case (Cons p ps)
  from writeString_healthy [OF Cons.prems, of p] Cons.IH [of "writeString p w"]
  show ?case by simp
qed

lemma fold_writeString_err: "err w \<noteq> None \<Longrightarrow> fold writeString ps w = w"
  by (induction ps) (simp_all add: writeString_err)

lemma fold_writeString_fits:
  "err w = None \<Longrightarrow> length (buf w) + length (concat (map blob_string_frame ps)) \<le> bufsize w \<Longrightarrow>
     fold writeString ps w = w\<lparr>buf := buf w @ concat (map blob_string_frame ps)\<rparr>"
proof (induction ps arbitrary: w)
  case Nil
  then show ?case by simp
next
  case (Cons p ps)
  have w1: "writeString p w = w\<lparr>buf := buf w @ blob_string_frame p\<rparr>"
    using Cons.prems by (intro writeString_fits) simp_all
  show ?case
    using Cons.prems Cons.IH [of "w\<lparr>buf := buf w @ blob_string_frame p\<rparr>"]
    by (simp add: w1)
qed

lemma write_header_healthy:
  assumes "healthy w"
  shows "healthy (write_header n w) \<and> stream (write_header n w) = stream w @ array_frame_header n
         \<and> bufsize (write_header n w) = bufsize w"
proof -
  define w1 where "w1 = WriteByte TypeArray w"
  define w2 where "w2 = Write (Itoa (int n)) w1"
  define w3 where "w3 = Write CRLFByte w2"
  have eq: "write_header n w = w3"
    by (simp add: write_header_def WriteString_def w1_def w2_def w3_def)
  have 1: "healthy w1 \<and> stream w1 = stream w @ [TypeArray] \<and> bufsize w1 = bufsize w"
    unfolding w1_def by (rule WriteByte_healthy [OF assms])
  have 2: "healthy w2 \<and> stream w2 = stream w1 @ Itoa (int n) \<and> bufsize w2 = bufsize w1"
    unfolding w2_def using 1 by (intro Write_healthy) simp
  have 3: "healthy w3 \<and> stream w3 = stream w2 @ CRLFByte \<and> bufsize w3 = bufsize w2"
    unfolding w3_def using 2 by (intro Write_healthy) simp
  show ?thesis
    unfolding eq using 1 2 3 by (simp add: array_frame_header_def)
qed

lemma write_header_err: "err w \<noteq> None \<Longrightarrow> write_header n w = w"
  by (simp add: write_header_def WriteString_def WriteByte_err Write_err)

lemma write_header_fits:
  assumes "err w = None" and "length (buf w) + length (array_frame_header n) \<le> bufsize w"
  shows "write_header n w = w\<lparr>buf := buf w @ array_frame_header n\<rparr>"
proof -
  have len: "length (buf w) + (1 + length (Itoa (int n)) + length CRLFByte) \<le> bufsize w"
    using assms(2) by (simp add: array_frame_header_def)
  show ?thesis
    using assms(1) len
    by (simp add: write_header_def WriteString_def WriteByte_fits Write_fits_buffer array_frame_header_def)
qed

lemma SendCommands_eq:
  "SendCommands sc args w =
     (let w1 = fold writeString (map (the \<circ> payload sc) (takeWhile supported args))
                 (write_header (length args) w)
      in case find (\<lambda>a. \<not> supported a) args of
           Some a \<Rightarrow> (Some (unsupported_error sc a), w1)
         | None \<Rightarrow> Flush w1)"
  by (simp add: SendCommands_def Let_def SendCommands_args_eq write_header_def split: option.splits)

lemma WriteCommand_eq:
  "WriteCommand args w = Flush (fold writeString args (write_header (length args) w))"
  by (simp add: WriteCommand_def Let_def WriteCommand_args_eq write_header_def)

lemma WriteByteCommand_eq:
  "WriteByteCommand args w = Flush (fold writeString args (write_header (length args) w))"
  by (simp add: WriteByteCommand_def Let_def WriteByteCommand_args_eq write_header_def)

lemma Flush_fold_healthy:
  assumes "healthy w"
  shows "Flush (fold writeString ps (write_header n w)) =
           (None, w\<lparr>buf := [], wr := (wr w)\<lparr>delivered :=
              stream w @ array_frame_header n @ concat (map blob_string_frame ps)\<rparr>\<rparr>)"
proof -
  define w1 where "w1 = write_header n w"
  define w2 where "w2 = fold writeString ps w1"
  have 1: "healthy w1 \<and> stream w1 = stream w @ array_frame_header n \<and> bufsize w1 = bufsize w"
    unfolding w1_def by (rule write_header_healthy [OF assms])
  then have 2: "healthy w2 \<and> stream w2 = stream w1 @ concat (map blob_string_frame ps)
                 \<and> bufsize w2 = bufsize w1"
    unfolding w2_def by (intro fold_writeString_healthy) simp
  then have h2: "healthy w2" by simp
  have "Flush w2 = (None, w2\<lparr>buf := [], wr := (wr w2)\<lparr>delivered := stream w2\<rparr>\<rparr>)"
    by (rule Flush_healthy [OF h2])
  moreover have "w2\<lparr>buf := [], wr := (wr w2)\<lparr>delivered := stream w2\<rparr>\<rparr> =
      w\<lparr>buf := [], wr := (wr w)\<lparr>delivered :=
              stream w @ array_frame_header n @ concat (map blob_string_frame ps)\<rparr>\<rparr>"
    using 1 2 assms by (simp add: healthy_def)
  ultimately show ?thesis by (simp add: w1_def w2_def)
qed

lemma Flush_bounded: "bounded b \<Longrightarrow> bounded (snd (Flush b))"
  by (auto simp: bounded_def Flush_def Let_def split: prod.splits)

lemma Write_bounded: "bounded b \<Longrightarrow> bounded (Write p b)"
proof (induction p b rule: Write.induct)
  case (1 p b)
  show ?case
  proof (cases "length p > Available b \<and> err b = None")
    case False
    with "1.prems" show ?thesis
      by (subst Write.simps) (auto simp: bounded_def Available_def)
  next
    case loop: True
    show ?thesis
    proof (cases "Buffered b = 0")
      case True
      obtain n e s where sw: "sink_Write p (wr b) = (n, e, s)"
        by (cases "sink_Write p (wr b)")
      have "bounded (b\<lparr>err := e, wr := s\<rparr>)"
        using "1.prems" by (simp add: bounded_def)
      from "1.IH"(1) [OF loop True sw [symmetric] refl this]
      show ?thesis
        using loop True by (subst Write.simps) (simp add: sw)
    next
      case False
      define n where "n = min (Available b) (length p)"
      have "bounded (b\<lparr>buf := buf b @ take n p\<rparr>)"
        using "1.prems" loop by (simp add: bounded_def n_def Available_def)
      then have "bounded (snd (Flush (b\<lparr>buf := buf b @ take n p\<rparr>)))"
        by (rule Flush_bounded)
      from "1.IH"(2) [OF loop False n_def this]
      show ?thesis
        using loop False by (subst Write.simps) (simp add: Let_def n_def)
    qed
  qed
qed

lemma WriteByte_bounded: "bounded b \<Longrightarrow> bounded (WriteByte c b)"
proof -
  assume b: "bounded b"
  show ?thesis
  proof (cases "err b \<noteq> None \<or> 0 < Available b")
    case True
    then show ?thesis using b by (auto simp: WriteByte_def bounded_def Available_def)
  next
    case False
    then have full: "err b = None" "buf b \<noteq> []" "Available b = 0"
      using b by (auto simp: bounded_def Available_def)
    obtain n e s where sw: "sink_Write (buf b) (wr b) = (n, e, s)"
      by (cases "sink_Write (buf b) (wr b)")
    show ?thesis
      using b full by (auto simp: WriteByte_def Flush_def sw Let_def bounded_def)
  qed
qed

lemma writeString_bounded: "bounded w \<Longrightarrow> bounded (writeString p w)"
  by (simp add: writeString_def WriteString_def Let_def Write_bounded WriteByte_bounded)

lemma fold_writeString_bounded: "bounded w \<Longrightarrow> bounded (fold writeString ps w)"
  by (induction ps arbitrary: w) (simp_all add: writeString_bounded)

lemma write_header_bounded: "bounded w \<Longrightarrow> bounded (write_header n w)"
  by (simp add: write_header_def WriteString_def Write_bounded WriteByte_bounded)

lemma formatBits_acc: "formatBits u a = formatBits u [] @ a"
proof (induction u arbitrary: a rule: less_induct)
  case (less u)
  show ?case
  proof (cases "u \<ge> 10")
    case True
    then have lt: "u div 10 < u" by simp
    have "formatBits u a = formatBits (u div 10) (char_of (48 + u mod 10) # a)"
      using True by (subst formatBits.simps) simp
    also have "\<dots> = formatBits (u div 10) [] @ char_of (48 + u mod 10) # a"
      by (rule less.IH [OF lt])
    also have "\<dots> = (formatBits (u div 10) [] @ [char_of (48 + u mod 10)]) @ a"
      by simp
    also have "formatBits (u div 10) [] @ [char_of (48 + u mod 10)]
                 = formatBits (u div 10) [char_of (48 + u mod 10)]"
      by (rule less.IH [OF lt, symmetric])
    also have "\<dots> = formatBits u []"
      using True by (subst (2) formatBits.simps) simp
    finally show ?thesis .
  next
    case False
    then show ?thesis by (simp add: formatBits.simps [of u])
  qed
qed

lemma formatBits_small: "u < 10 \<Longrightarrow> formatBits u [] = [char_of (48 + u)]"
  by (simp add: formatBits.simps [of u])

lemma formatBits_step:
  "10 \<le> u \<Longrightarrow> formatBits u [] = formatBits (u div 10) [] @ [char_of (48 + u mod 10)]"
  by (subst formatBits.simps, simp, subst formatBits_acc, simp)

lemma of_char_digit: "d < 10 \<Longrightarrow> (of_char (char_of (48 + d :: nat)) :: nat) = 48 + d"
  by (simp add: of_char_of)

lemma is_digit_digit: "d < 10 \<Longrightarrow> is_digit (char_of (48 + d :: nat))"
  by (simp add: is_digit_def of_char_digit)

lemma decimal_value_snoc:
  "decimal_value (s @ [c]) = 10 * decimal_value s + (of_char c - 48)"
  by (simp add: decimal_value_def)

lemma decimal_value_formatBits: "decimal_value (formatBits u []) = u"
proof (induction u rule: less_induct)
  case (less u)
  show ?case
  proof (cases "u < 10")
    case True
    then show ?thesis
      by (simp add: formatBits_small decimal_value_def of_char_digit)
  next
    case False
    then have "u div 10 < u" by simp
    from less.IH [OF this] False show ?thesis
      by (simp add: formatBits_step decimal_value_snoc of_char_digit)
  qed
qed

lemma digits_formatBits: "list_all is_digit (formatBits u [])"
proof (induction u rule: less_induct)
  case (less u)
  show ?case
  proof (cases "u < 10")
    case True
    then show ?thesis by (simp add: formatBits_small is_digit_digit)
  next
    case False
    then have "u div 10 < u" by simp
    from less.IH [OF this] False show ?thesis
      by (simp add: formatBits_step is_digit_digit)
  qed
qed

lemma formatBits_nonempty: "formatBits u [] \<noteq> []"
  by (cases "u < 10") (simp_all add: formatBits_small formatBits_step)











lemma decimal_value_Itoa: "decimal_value (Itoa (int n)) = n"
  by (simp add: Itoa_def decimal_value_formatBits)

lemma digits_Itoa_nat: "list_all is_digit (Itoa (int n))"
  by (simp add: Itoa_def digits_formatBits)

lemma not_digit_CR: "\<not> is_digit (CHR 0x0D)"
  by (simp add: is_digit_def)

lemma read_count_Itoa: "read_count (Itoa (int n) @ CRLFByte @ r) = Some (n, r)"
proof -
  let ?ds = "Itoa (int n)"
  have all: "\<And>c. c \<in> set ?ds \<Longrightarrow> is_digit c"
    using digits_Itoa_nat [of n] by (simp add: list_all_iff)
  have t: "takeWhile is_digit (?ds @ CRLFByte @ r) = ?ds"
    by (simp add: takeWhile_append2 [OF all] CRLFByte_def not_digit_CR)
  have d: "dropWhile is_digit (?ds @ CRLFByte @ r) = CRLFByte @ r"
    by (simp add: dropWhile_append2 [OF all] CRLFByte_def not_digit_CR)
  have ne: "?ds \<noteq> []" by (simp add: Itoa_def formatBits_nonempty)
  show ?thesis
    unfolding read_count_def Let_def t d using ne
    by (simp add: decimal_value_Itoa) (simp add: CRLFByte_def)
qed

lemma read_blob_string_frame: "read_blob_string (blob_string_frame p @ r) = Some (p, r)"
proof -
  have "blob_string_frame p @ r = TypeBlobString # (Itoa (int (length p)) @ CRLFByte @ (p @ CRLFByte @ r))"
    by (simp add: blob_string_frame_def)
  then show ?thesis
    by (simp add: read_blob_string_def read_count_Itoa) (simp add: CRLFByte_def)
qed

lemma read_blob_strings_frames:
  "read_blob_strings (length ps) (concat (map blob_string_frame ps) @ r) = Some (ps, r)"
  by (induction ps) (simp_all add: read_blob_string_frame)

lemma read_blob_strings_short:
  "read_blob_strings (length ps + Suc m) (concat (map blob_string_frame ps)) = None"
proof (induction ps)
  case Nil
  show ?case by (simp add: read_blob_string_def)
next
  case (Cons p ps)
  have "read_blob_string (blob_string_frame p @ concat (map blob_string_frame ps))
          = Some (p, concat (map blob_string_frame ps))"
    by (rule read_blob_string_frame)
  then show ?case using Cons.IH by simp
qed

lemma read_command_frame: "read_command (command_frame ps @ r) = Some (ps, r)"
proof -
  have "command_frame ps @ r =
          TypeArray # (Itoa (int (length ps)) @ CRLFByte @ (concat (map blob_string_frame ps) @ r))"
    by (simp add: command_frame_def array_frame_header_def)
  then show ?thesis
    by (simp add: read_command_def read_count_Itoa read_blob_strings_frames)
qed

lemma read_command_short:
  assumes "length ps < n"
  shows "read_command (array_frame_header n @ concat (map blob_string_frame ps)) = None"
proof -
  obtain m where n: "n = length ps + Suc m"
    using assms less_iff_Suc_add by auto
  have "array_frame_header n @ concat (map blob_string_frame ps) =
          TypeArray # (Itoa (int n) @ CRLFByte @ concat (map blob_string_frame ps))"
    by (simp add: array_frame_header_def)
  then have "read_command (array_frame_header n @ concat (map blob_string_frame ps)) =
          read_blob_strings n (concat (map blob_string_frame ps))"
    by (simp add: read_command_def read_count_Itoa)
  also have "\<dots> = None"
    unfolding n by (rule read_blob_strings_short)
  finally show ?thesis .
qed



lemma WriteCommand_healthy:
  "healthy w \<Longrightarrow> WriteCommand args w = (None, sent w (command_frame args))"
  unfolding WriteCommand_eq by (simp add: Flush_fold_healthy sent_def command_frame_def)

lemma WriteByteCommand_healthy:
  "healthy w \<Longrightarrow> WriteByteCommand args w = (None, sent w (command_frame args))"
  unfolding WriteByteCommand_eq by (simp add: Flush_fold_healthy sent_def command_frame_def)

lemma find_unsupported_None: "list_all supported args \<Longrightarrow> find (\<lambda>a. \<not> supported a) args = None"
  by (induction args) simp_all

lemma takeWhile_supported_all: "list_all supported args \<Longrightarrow> takeWhile supported args = args"
  by (induction args) simp_all

lemma find_unsupported_Some:
  "list_all supported pre \<Longrightarrow> \<not> supported a \<Longrightarrow> find (\<lambda>a. \<not> supported a) (pre @ a # post) = Some a"
  by (induction pre) simp_all

lemma takeWhile_supported_pre:
  "list_all supported pre \<Longrightarrow> \<not> supported a \<Longrightarrow> takeWhile supported (pre @ a # post) = pre"
  by (induction pre) simp_all

lemma SendCommands_healthy:
  assumes "healthy w" and "list_all supported args"
  shows "SendCommands sc args w = (None, sent w (command_frame (map (the \<circ> payload sc) args)))"
  unfolding SendCommands_eq
  using assms
  by (simp add: find_unsupported_None takeWhile_supported_all Flush_fold_healthy sent_def
                command_frame_def)

lemma SendCommands_reject:
  assumes "list_all supported pre" and "\<not> supported a"
  shows "SendCommands sc (pre @ a # post) w =
           (Some (unsupported_error sc a),
            fold writeString (map (the \<circ> payload sc) pre)
              (write_header (length (pre @ a # post)) w))"
  unfolding SendCommands_eq
  using assms by (simp add: find_unsupported_Some takeWhile_supported_pre)

lemma char_of_digits:
  "char_of (48 :: nat) = CHR ''0''" "char_of (49 :: nat) = CHR ''1''"
  "char_of (50 :: nat) = CHR ''2''" "char_of (51 :: nat) = CHR ''3''"
  "char_of (52 :: nat) = CHR ''4''" "char_of (53 :: nat) = CHR ''5''"
  "char_of (54 :: nat) = CHR ''6''" "char_of (55 :: nat) = CHR ''7''"
  "char_of (56 :: nat) = CHR ''8''" "char_of (57 :: nat) = CHR ''9''"
  by code_simp+

lemmas frame_eval = command_frame_def array_frame_header_def blob_string_frame_def
  TypeArray_def TypeBlobString_def CRLFByte_def Itoa_def formatBits.simps char_of_digits



lemma healthy_NewWriter: "healthy (NewWriter empty_sink)"
  by (simp add: healthy_def NewWriter_def empty_sink_def)

lemma bounded_NewWriter: "bounded (NewWriter s)"
  by (simp add: bounded_def NewWriter_def)

lemma sent_NewWriter:
  "sent (NewWriter empty_sink) out =
     \<lparr>buf = [], bufsize = 4096, err = None, wr = \<lparr>delivered = out, room = None\<rparr>\<rparr>"
  by (simp add: sent_def NewWriter_def empty_sink_def stream_def)

lemma SendCommands_reject_healthy:
  assumes "list_all supported pre" and "\<not> supported a" and "healthy w"
  shows "healthy (snd (SendCommands sc (pre @ a # post) w))
         \<and> stream (snd (SendCommands sc (pre @ a # post) w)) =
             stream w @ array_frame_header (length (pre @ a # post))
               @ concat (map blob_string_frame (map (the \<circ> payload sc) pre))"
proof -
  let ?n = "length (pre @ a # post)"
  have 1: "healthy (write_header ?n w) \<and> stream (write_header ?n w) = stream w @ array_frame_header ?n
           \<and> bufsize (write_header ?n w) = bufsize w"
    by (rule write_header_healthy [OF assms(3)])
  then have h1: "healthy (write_header ?n w)" by simp
  show ?thesis
    unfolding SendCommands_reject [OF assms(1,2)]
    using fold_writeString_healthy [OF h1, of "map (the \<circ> payload sc) pre"] 1
    by simp
qed

lemma SendCommands_reject_fits:
  assumes "list_all supported pre" and "\<not> supported a" and "err w = None"
    and "length (buf w) + length (array_frame_header (length (pre @ a # post))
               @ concat (map blob_string_frame (map (the \<circ> payload sc) pre))) \<le> bufsize w"
  shows "snd (SendCommands sc (pre @ a # post) w) =
           w\<lparr>buf := buf w @ array_frame_header (length (pre @ a # post))
               @ concat (map blob_string_frame (map (the \<circ> payload sc) pre))\<rparr>"
proof -
  let ?n = "length (pre @ a # post)"
  let ?w1 = "w\<lparr>buf := buf w @ array_frame_header ?n\<rparr>"
  have 1: "write_header ?n w = ?w1"
    using assms(3,4) by (intro write_header_fits) simp_all
  have 2: "fold writeString (map (the \<circ> payload sc) pre) ?w1 =
             ?w1\<lparr>buf := buf ?w1 @ concat (map blob_string_frame (map (the \<circ> payload sc) pre))\<rparr>"
    using assms(3,4) by (intro fold_writeString_fits) simp_all
  show ?thesis
    unfolding SendCommands_reject [OF assms(1,2)] 1 using 2 by simp
qed

lemma SendCommands_reject_bounded:
  assumes "list_all supported pre" and "\<not> supported a" and "bounded w"
  shows "bounded (snd (SendCommands sc (pre @ a # post) w))"
  unfolding SendCommands_reject [OF assms(1,2)]
  by (simp add: fold_writeString_bounded write_header_bounded assms(3))


lemma SendCommands_reject_bufsize:
  assumes "list_all supported pre" and "\<not> supported a" and "healthy w"
  shows "bufsize (snd (SendCommands sc (pre @ a # post) w)) = bufsize w"
proof -
  let ?n = "length (pre @ a # post)"
  have 1: "healthy (write_header ?n w) \<and> stream (write_header ?n w) = stream w @ array_frame_header ?n
           \<and> bufsize (write_header ?n w) = bufsize w"
    by (rule write_header_healthy [OF assms(3)])
  then have h1: "healthy (write_header ?n w)" by simp
  show ?thesis
    unfolding SendCommands_reject [OF assms(1,2)]
    using fold_writeString_healthy [OF h1, of "map (the \<circ> payload sc) pre"] 1
    by simp
qed


lemma SendCommands_healthy_at:
  assumes "healthy w" and "list_all supported pre" and "supported a" and "list_all supported post"
  shows "SendCommands sc (pre @ a # post) w =
           (None, sent w (array_frame_header (length (pre @ a # post))
              @ concat (map blob_string_frame (map (the \<circ> payload sc) pre))
              @ blob_string_frame (the (payload sc a))
              @ concat (map blob_string_frame (map (the \<circ> payload sc) post))))"
proof -
  have "list_all supported (pre @ a # post)" using assms(2-4) by simp
  from SendCommands_healthy [OF assms(1) this, of sc]
  show ?thesis by (simp add: command_frame_def)
qed

section \<open>The claims\<close>

text \<open>
  Claim C2. \<^verbatim>\<open>WriteCommand\<close> on the three strings \<^verbatim>\<open>SET\<close>, \<^verbatim>\<open>key1\<close>, \<^verbatim>\<open>value1\<close>
  sends exactly the bytes \<^verbatim>\<open>*3\r\n$3\r\nSET\r\n$4\r\nkey1\r\n$6\r\nvalue1\r\n\<close>; for any
  arguments it sends the array marker, the number of arguments and the terminator, and
  then for each argument in order the blob-string marker, its length, the terminator, the
  argument as it is and the terminator. The writer is healthy: no earlier error, and a
  sink that takes what it is given.
\<close>

theorem WriteCommand_array_of_blob_strings:
  assumes "healthy w"
  shows "WriteCommand [''SET'', ''key1'', ''value1''] w =
           (None, sent w (''*3'' @ CRLF @ ''$3'' @ CRLF @ ''SET'' @ CRLF
                          @ ''$4'' @ CRLF @ ''key1'' @ CRLF
                          @ ''$6'' @ CRLF @ ''value1'' @ CRLF))
         \<and> WriteCommand args w =
           (None, sent w (TypeArray # Itoa (int (length args)) @ CRLFByte
                          @ concat (map (\<lambda>arg. TypeBlobString # Itoa (int (length arg)) @ CRLFByte
                                                 @ arg @ CRLFByte) args)))"
proof -
  have "command_frame [''SET'', ''key1'', ''value1''] =
          ''*3'' @ CRLF @ ''$3'' @ CRLF @ ''SET'' @ CRLF @ ''$4'' @ CRLF @ ''key1'' @ CRLF
          @ ''$6'' @ CRLF @ ''value1'' @ CRLF"
    by (simp add: frame_eval)
  moreover have "command_frame args = TypeArray # Itoa (int (length args)) @ CRLFByte
      @ concat (map (\<lambda>arg. TypeBlobString # Itoa (int (length arg)) @ CRLFByte @ arg @ CRLFByte) args)"
    by (simp add: command_frame_def array_frame_header_def blob_string_frame_def [abs_def])
  ultimately show ?thesis
    using WriteCommand_healthy [OF assms] by simp
qed

text \<open>The scenario of claim C2 on a new writer over an empty sink.\<close>

theorem WriteCommand_array_of_blob_strings_witness:
  "healthy (NewWriter empty_sink) \<and>
   WriteCommand [''SET'', ''key1'', ''value1''] (NewWriter empty_sink) =
     (None, \<lparr>buf = [], bufsize = 4096, err = None,
              wr = \<lparr>delivered = ''*3'' @ CRLF @ ''$3'' @ CRLF @ ''SET'' @ CRLF
                          @ ''$4'' @ CRLF @ ''key1'' @ CRLF
                          @ ''$6'' @ CRLF @ ''value1'' @ CRLF, room = None\<rparr>\<rparr>)"
  using WriteCommand_array_of_blob_strings [where args = "[]", OF healthy_NewWriter]
  by (simp add: healthy_NewWriter sent_NewWriter)

text \<open>
  Claim C7. \<^verbatim>\<open>WriteCommand\<close> without arguments sends exactly \<^verbatim>\<open>*0\r\n\<close>, the array
  frame of count zero with no frame after it.
\<close>

theorem WriteCommand_empty:
  "healthy w \<Longrightarrow> WriteCommand [] w = (None, sent w (''*0'' @ CRLF))"
proof -
  assume "healthy w"
  then have "WriteCommand [] w = (None, sent w (command_frame []))"
    by (rule WriteCommand_healthy)
  moreover have "command_frame [] = ''*0'' @ CRLF"
    by (simp add: frame_eval)
  ultimately show ?thesis by simp
qed

text \<open>Claim C7 on a new writer over an empty sink.\<close>

theorem WriteCommand_empty_witness:
  "healthy (NewWriter empty_sink) \<and>
   WriteCommand [] (NewWriter empty_sink) =
     (None, \<lparr>buf = [], bufsize = 4096, err = None,
              wr = \<lparr>delivered = ''*0'' @ CRLF, room = None\<rparr>\<rparr>)"
  using WriteCommand_empty [OF healthy_NewWriter]
  by (simp add: healthy_NewWriter sent_NewWriter)

text \<open>
  Claim C1. On a healthy writer each of the three methods sends an array header and one
  blob-string frame per argument, and every frame is the marker, the decimal byte length
  of the payload, the terminator, the payload bytes as they are and the terminator. The
  declared length is a digit sequence whose value is the number of bytes of the payload,
  so a reader that goes by the declared lengths alone gets every payload back, whatever
  bytes it holds, the terminator's among them.
\<close>

theorem blob_string_frames_binary_safe:
  assumes "healthy w"
  shows "WriteCommand strs w = (None, sent w (command_frame strs))
       \<and> WriteByteCommand bss w = (None, sent w (command_frame bss))
       \<and> (list_all supported args \<longrightarrow>
            SendCommands sc args w = (None, sent w (command_frame (map (the \<circ> payload sc) args))))
       \<and> command_frame ps =
            TypeArray # Itoa (int (length ps)) @ CRLFByte
            @ concat (map (\<lambda>p. TypeBlobString # Itoa (int (length p)) @ CRLFByte @ p @ CRLFByte) ps)
       \<and> list_all is_digit (Itoa (int (length p)))
       \<and> decimal_value (Itoa (int (length p))) = length p
       \<and> read_blob_string (blob_string_frame p @ rest) = Some (p, rest)
       \<and> read_command (command_frame ps) = Some (ps, [])"
proof -
  have "command_frame ps = TypeArray # Itoa (int (length ps)) @ CRLFByte
      @ concat (map (\<lambda>p. TypeBlobString # Itoa (int (length p)) @ CRLFByte @ p @ CRLFByte) ps)"
    by (simp add: command_frame_def array_frame_header_def blob_string_frame_def [abs_def])
  moreover have "read_command (command_frame ps) = Some (ps, [])"
    using read_command_frame [of ps "[]"] by simp
  ultimately show ?thesis
    using WriteCommand_healthy [OF assms, of strs] WriteByteCommand_healthy [OF assms, of bss]
      SendCommands_healthy [OF assms, of args sc] digits_Itoa_nat [of "length p"]
      decimal_value_Itoa [of "length p"] read_blob_string_frame [of p rest]
    by blast
qed

text \<open>
  Claim C1 at a text of one character in two bytes and at a payload that holds the
  terminator.
\<close>

theorem blob_string_frames_binary_safe_witness:
  "healthy (NewWriter empty_sink)
   \<and> WriteCommand [[CHR 0xC3, CHR 0xA9]] (NewWriter empty_sink) =
       (None, \<lparr>buf = [], bufsize = 4096, err = None,
                wr = \<lparr>delivered = ''*1'' @ CRLF @ ''$2'' @ CRLF @ [CHR 0xC3, CHR 0xA9] @ CRLF,
                       room = None\<rparr>\<rparr>)
   \<and> WriteByteCommand [''a'' @ CRLF @ ''b''] (NewWriter empty_sink) =
       (None, \<lparr>buf = [], bufsize = 4096, err = None,
                wr = \<lparr>delivered = ''*1'' @ CRLF @ ''$4'' @ CRLF @ ''a'' @ CRLF @ ''b'' @ CRLF,
                       room = None\<rparr>\<rparr>)
   \<and> list_all supported [GoBytes (''a'' @ CRLF @ ''b'')]
   \<and> SendCommands strconv_unused [GoBytes (''a'' @ CRLF @ ''b'')] (NewWriter empty_sink) =
       (None, \<lparr>buf = [], bufsize = 4096, err = None,
                wr = \<lparr>delivered = ''*1'' @ CRLF @ ''$4'' @ CRLF @ ''a'' @ CRLF @ ''b'' @ CRLF,
                       room = None\<rparr>\<rparr>)
   \<and> read_command (''*1'' @ CRLF @ ''$4'' @ CRLF @ ''a'' @ CRLF @ ''b'' @ CRLF)
       = Some ([''a'' @ CRLF @ ''b''], [])"
proof -
  have f1: "command_frame [[CHR 0xC3, CHR 0xA9]] =
              ''*1'' @ CRLF @ ''$2'' @ CRLF @ [CHR 0xC3, CHR 0xA9] @ CRLF"
    by (simp add: frame_eval)
  have f2: "command_frame [''a'' @ CRLF @ ''b''] =
              ''*1'' @ CRLF @ ''$4'' @ CRLF @ ''a'' @ CRLF @ ''b'' @ CRLF"
    by (simp add: frame_eval)
  note inst = blob_string_frames_binary_safe [OF healthy_NewWriter,
      where strs = "[[CHR 0xC3, CHR 0xA9]]" and bss = "[''a'' @ CRLF @ ''b'']"
        and args = "[GoBytes (''a'' @ CRLF @ ''b'')]" and sc = strconv_unused
        and ps = "[''a'' @ CRLF @ ''b'']" and p = "[]" and rest = "[]"]
  have sup: "list_all supported [GoBytes (''a'' @ CRLF @ ''b'')]" by simp
  have m: "map (the \<circ> payload strconv_unused) [GoBytes (''a'' @ CRLF @ ''b'')] = [''a'' @ CRLF @ ''b'']"
    by simp
  from inst have a: "WriteCommand [[CHR 0xC3, CHR 0xA9]] (NewWriter empty_sink) =
      (None, sent (NewWriter empty_sink) (command_frame [[CHR 0xC3, CHR 0xA9]]))" by blast
  from inst have b: "WriteByteCommand [''a'' @ CRLF @ ''b''] (NewWriter empty_sink) =
      (None, sent (NewWriter empty_sink) (command_frame [''a'' @ CRLF @ ''b'']))" by blast
  from inst sup have c: "SendCommands strconv_unused [GoBytes (''a'' @ CRLF @ ''b'')] (NewWriter empty_sink) =
      (None, sent (NewWriter empty_sink)
         (command_frame (map (the \<circ> payload strconv_unused) [GoBytes (''a'' @ CRLF @ ''b'')])))"
    by blast
  from inst have d: "read_command (command_frame [''a'' @ CRLF @ ''b'']) = Some ([''a'' @ CRLF @ ''b''], [])"
    by blast
  show ?thesis
    using a b c d unfolding m f1 f2 sent_NewWriter
    by (simp add: healthy_NewWriter)
qed

text \<open>
  Claim C3 as stated fails: \<^verbatim>\<open>bufio\<close> passes its buffer on to the sink whenever it is
  full, so with a first argument of 5000 bytes and an unsupported second one the call
  returns the error after part of what it wrote has reached the sink.
\<close>

theorem unsupported_prefix_reaches_sink:
  "fst (SendCommands strconv_unused [GoString (replicate 5000 CHR ''a''), GoNil]
          (NewWriter empty_sink))
     = Some (Errorf ''unsupported data type: <nil>'')
   \<and> delivered (wr (snd (SendCommands strconv_unused [GoString (replicate 5000 CHR ''a''), GoNil]
          (NewWriter empty_sink)))) \<noteq> delivered (wr (NewWriter empty_sink))"
proof -
  let ?big = "replicate 5000 CHR ''a''"
  let ?r = "SendCommands strconv_unused ([GoString ?big] @ GoNil # []) (NewWriter empty_sink)"
  have pre: "list_all supported [GoString ?big]" and a: "\<not> supported GoNil"
    by simp_all
  have e: "fst ?r = Some (Errorf ''unsupported data type: <nil>'')"
    unfolding SendCommands_reject [OF pre a] by (simp add: unsupported_error_def)
  have "bounded (snd ?r)"
    by (rule SendCommands_reject_bounded [OF pre a bounded_NewWriter])
  moreover have "bufsize (snd ?r) = 4096"
    unfolding SendCommands_reject_bufsize [OF pre a healthy_NewWriter]
    by (simp add: NewWriter_def)
  ultimately have b: "length (buf (snd ?r)) \<le> 4096"
    by (simp add: bounded_def)
  have s: "stream (snd ?r) = stream (NewWriter empty_sink)
          @ array_frame_header (length ([GoString ?big] @ GoNil # []))
          @ concat (map blob_string_frame (map (the \<circ> payload strconv_unused) [GoString ?big]))"
    using SendCommands_reject_healthy [OF pre a healthy_NewWriter, of strconv_unused "[]"]
    by blast
  have "length (stream (NewWriter empty_sink)
          @ array_frame_header (length ([GoString ?big] @ GoNil # []))
          @ concat (map blob_string_frame (map (the \<circ> payload strconv_unused) [GoString ?big])))
        = 5013"
    by (simp add: frame_eval NewWriter_def empty_sink_def stream_def)
  then have "length (stream (snd ?r)) = 5013"
    by (simp only: s)
  then have "length (delivered (wr (snd ?r))) + length (buf (snd ?r)) = 5013"
    by (simp add: stream_def)
  with b have "delivered (wr (snd ?r)) \<noteq> []" by auto
  with e show ?thesis by (simp add: NewWriter_def empty_sink_def)
qed

text \<open>
  Claim C3, amended. When the first unsupported argument comes after supported ones,
  \<^verbatim>\<open>SendCommands\<close> returns the unsupported-type error without reaching \<^verbatim>\<open>Flush\<close>. What
  it has written is the array header, which declares all the arguments, and the frames of
  the arguments before the unsupported one: on a healthy writer these bytes are added to
  the stream, they stay pending in the buffer and nothing reaches the sink whenever they
  fit into the free part of the buffer, a writer with a sticky error is left as it was,
  and in no case are they a complete command.
\<close>

theorem SendCommands_unsupported_returns_before_Flush:
  assumes "list_all supported pre" and "\<not> supported a"
  shows "fst (SendCommands sc (pre @ a # post) w) = Some (unsupported_error sc a)
       \<and> (err w \<noteq> None \<longrightarrow> snd (SendCommands sc (pre @ a # post) w) = w)
       \<and> (err w = None
            \<and> length (buf w) + length (array_frame_header (length (pre @ a # post))
                 @ concat (map blob_string_frame (map (the \<circ> payload sc) pre))) \<le> bufsize w \<longrightarrow>
            snd (SendCommands sc (pre @ a # post) w) =
              w\<lparr>buf := buf w @ array_frame_header (length (pre @ a # post))
                    @ concat (map blob_string_frame (map (the \<circ> payload sc) pre))\<rparr>)
       \<and> (healthy w \<longrightarrow>
            stream (snd (SendCommands sc (pre @ a # post) w)) =
              stream w @ array_frame_header (length (pre @ a # post))
                @ concat (map blob_string_frame (map (the \<circ> payload sc) pre)))
       \<and> read_command (array_frame_header (length (pre @ a # post))
            @ concat (map blob_string_frame (map (the \<circ> payload sc) pre))) = None"
proof -
  have 1: "fst (SendCommands sc (pre @ a # post) w) = Some (unsupported_error sc a)"
    unfolding SendCommands_reject [OF assms] by simp
  have 2: "snd (SendCommands sc (pre @ a # post) w) = w" if "err w \<noteq> None"
    unfolding SendCommands_reject [OF assms]
    using that by (simp add: write_header_err fold_writeString_err)
  have 5: "read_command (array_frame_header (length (pre @ a # post))
            @ concat (map blob_string_frame (map (the \<circ> payload sc) pre))) = None"
    by (rule read_command_short) simp
  show ?thesis
    using 1 2 5 SendCommands_reject_fits [OF assms, of w post sc]
      SendCommands_reject_healthy [OF assms, of w sc post]
    by blast
qed

text \<open>
  The amended claim C3 at a string followed by a 32-bit integer, on a new writer.
\<close>

theorem SendCommands_unsupported_returns_before_Flush_witness:
  "list_all supported [GoString ''a''] \<and> \<not> supported (GoInt32 (- 5))
   \<and> SendCommands strconv_unused [GoString ''a'', GoInt32 (- 5)] (NewWriter empty_sink) =
       (Some (Errorf ''unsupported data type: -5''),
        \<lparr>buf = ''*2'' @ CRLF @ ''$1'' @ CRLF @ ''a'' @ CRLF, bufsize = 4096, err = None,
           wr = \<lparr>delivered = [], room = None\<rparr>\<rparr>)
   \<and> read_command (''*2'' @ CRLF @ ''$1'' @ CRLF @ ''a'' @ CRLF) = None"
proof -
  have pre: "list_all supported [GoString ''a'']" and a: "\<not> supported (GoInt32 (- 5))"
    by simp_all
  have f: "array_frame_header (length ([GoString ''a''] @ GoInt32 (- 5) # []))
             @ concat (map blob_string_frame (map (the \<circ> payload strconv_unused) [GoString ''a'']))
           = ''*2'' @ CRLF @ ''$1'' @ CRLF @ ''a'' @ CRLF"
    by (simp add: frame_eval)
  have e: "unsupported_error strconv_unused (GoInt32 (- 5)) = Errorf ''unsupported data type: -5''"
    by (simp add: unsupported_error_def frame_eval)
  note inst = SendCommands_unsupported_returns_before_Flush [OF pre a,
      where post = "[]" and sc = strconv_unused and w = "NewWriter empty_sink"]
  have fits: "err (NewWriter empty_sink) = None
       \<and> length (buf (NewWriter empty_sink)) + length (''*2'' @ CRLF @ ''$1'' @ CRLF @ ''a'' @ CRLF)
           \<le> bufsize (NewWriter empty_sink)"
    by (simp add: NewWriter_def)
  from inst have 1: "fst (SendCommands strconv_unused ([GoString ''a''] @ GoInt32 (- 5) # [])
      (NewWriter empty_sink)) = Some (Errorf ''unsupported data type: -5'')"
    unfolding e by blast
  from inst fits have 2: "snd (SendCommands strconv_unused ([GoString ''a''] @ GoInt32 (- 5) # [])
      (NewWriter empty_sink)) =
      (NewWriter empty_sink)\<lparr>buf := buf (NewWriter empty_sink) @ ''*2'' @ CRLF @ ''$1'' @ CRLF @ ''a'' @ CRLF\<rparr>"
    unfolding f by blast
  from inst have 3: "read_command (''*2'' @ CRLF @ ''$1'' @ CRLF @ ''a'' @ CRLF) = None"
    unfolding f by blast
  have "SendCommands strconv_unused [GoString ''a'', GoInt32 (- 5)] (NewWriter empty_sink) =
       (Some (Errorf ''unsupported data type: -5''),
        \<lparr>buf = ''*2'' @ CRLF @ ''$1'' @ CRLF @ ''a'' @ CRLF, bufsize = 4096, err = None,
           wr = \<lparr>delivered = [], room = None\<rparr>\<rparr>)"
    using 1 2 by (simp add: prod_eq_iff NewWriter_def empty_sink_def)
  with pre a 3 show ?thesis by blast
qed



text \<open>
  Claim C6. A boolean argument, wherever it stands among supported arguments, is sent
  as a blob string: the marker \<^verbatim>\<open>$\<close>, the length 4 or 5 and the text \<^verbatim>\<open>true\<close> or
  \<^verbatim>\<open>false\<close>. The single argument \<^verbatim>\<open>true\<close> is sent as \<^verbatim>\<open>*1\r\n$4\r\ntrue\r\n\<close>.
\<close>

theorem boolean_arguments_blob_strings:
  assumes "healthy w" and "list_all supported pre" and "list_all supported post"
  shows "SendCommands sc (pre @ GoBool b # post) w =
           (None, sent w (array_frame_header (length (pre @ GoBool b # post))
              @ concat (map blob_string_frame (map (the \<circ> payload sc) pre))
              @ (if b then ''$4'' @ CRLF @ ''true'' @ CRLF else ''$5'' @ CRLF @ ''false'' @ CRLF)
              @ concat (map blob_string_frame (map (the \<circ> payload sc) post))))
       \<and> SendCommands sc [GoBool True] w =
           (None, sent w (''*1'' @ CRLF @ ''$4'' @ CRLF @ ''true'' @ CRLF))"
proof -
  have f: "blob_string_frame (FormatBool b) =
             (if b then ''$4'' @ CRLF @ ''true'' @ CRLF else ''$5'' @ CRLF @ ''false'' @ CRLF)"
    by (simp add: FormatBool_def frame_eval)
  have 1: "SendCommands sc (pre @ GoBool b # post) w =
           (None, sent w (array_frame_header (length (pre @ GoBool b # post))
              @ concat (map blob_string_frame (map (the \<circ> payload sc) pre))
              @ (if b then ''$4'' @ CRLF @ ''true'' @ CRLF else ''$5'' @ CRLF @ ''false'' @ CRLF)
              @ concat (map blob_string_frame (map (the \<circ> payload sc) post))))"
    using SendCommands_healthy_at [OF assms(1,2) _ assms(3), of "GoBool b" sc]
    unfolding f [symmetric] by simp
  have "list_all supported [GoBool True]" by simp
  from SendCommands_healthy [OF assms(1) this, of sc]
  have 2: "SendCommands sc [GoBool True] w =
           (None, sent w (''*1'' @ CRLF @ ''$4'' @ CRLF @ ''true'' @ CRLF))"
    by (simp add: FormatBool_def frame_eval)
  from 1 2 show ?thesis by blast
qed

text \<open>
  Claim C6 at \<^verbatim>\<open>false\<close> after a string and at the scenario, on a new writer.
\<close>

theorem boolean_arguments_blob_strings_witness:
  "healthy (NewWriter empty_sink) \<and> list_all supported [GoString ''SETFLAG'']
   \<and> list_all supported []
   \<and> SendCommands strconv_unused [GoString ''SETFLAG'', GoBool False] (NewWriter empty_sink) =
       (None, \<lparr>buf = [], bufsize = 4096, err = None,
                wr = \<lparr>delivered = ''*2'' @ CRLF @ ''$7'' @ CRLF @ ''SETFLAG'' @ CRLF
                          @ ''$5'' @ CRLF @ ''false'' @ CRLF,
                       room = None\<rparr>\<rparr>)
   \<and> SendCommands strconv_unused [GoBool True] (NewWriter empty_sink) =
       (None, \<lparr>buf = [], bufsize = 4096, err = None,
                wr = \<lparr>delivered = ''*1'' @ CRLF @ ''$4'' @ CRLF @ ''true'' @ CRLF,
                       room = None\<rparr>\<rparr>)"
proof -
  have pre: "list_all supported [GoString ''SETFLAG'']" and post: "list_all supported []"
    by simp_all
  note inst = boolean_arguments_blob_strings [OF healthy_NewWriter pre post,
      of strconv_unused False]
  from inst have 1: "SendCommands strconv_unused [GoString ''SETFLAG'', GoBool False]
        (NewWriter empty_sink) =
       (None, \<lparr>buf = [], bufsize = 4096, err = None,
                wr = \<lparr>delivered = ''*2'' @ CRLF @ ''$7'' @ CRLF @ ''SETFLAG'' @ CRLF
                          @ ''$5'' @ CRLF @ ''false'' @ CRLF,
                       room = None\<rparr>\<rparr>)"
    by (simp add: sent_NewWriter frame_eval)
  from inst have 2: "SendCommands strconv_unused [GoBool True] (NewWriter empty_sink) =
       (None, \<lparr>buf = [], bufsize = 4096, err = None,
                wr = \<lparr>delivered = ''*1'' @ CRLF @ ''$4'' @ CRLF @ ''true'' @ CRLF,
                       room = None\<rparr>\<rparr>)"
    by (simp add: sent_NewWriter)
  from healthy_NewWriter pre post 1 2 show ?thesis by blast
qed

text \<open>
  Claim C8 as stated fails: the error holds the value of the argument only. A 32-bit
  signed integer at the first position and an 8-bit unsigned integer at the second
  position give the same error.
\<close>

theorem unsupported_error_same_for_positions_and_types:
  "fst (SendCommands strconv_unused [GoInt32 5] (NewWriter empty_sink))
     = Some (Errorf ''unsupported data type: 5'')
   \<and> fst (SendCommands strconv_unused [GoString ''k'', GoUint8 5] (NewWriter empty_sink))
     = Some (Errorf ''unsupported data type: 5'')"
proof -
  have 1: "fst (SendCommands strconv_unused ([] @ GoInt32 5 # []) (NewWriter empty_sink))
             = Some (Errorf ''unsupported data type: 5'')"
    by (subst SendCommands_reject) (simp_all add: unsupported_error_def frame_eval)
  have 2: "fst (SendCommands strconv_unused ([GoString ''k''] @ GoUint8 5 # []) (NewWriter empty_sink))
             = Some (Errorf ''unsupported data type: 5'')"
    by (subst SendCommands_reject) (simp_all add: unsupported_error_def FormatUint_def frame_eval)
  from 1 2 show ?thesis by simp
qed

text \<open>
  Claim C8, amended. The error of an unsupported argument is the text
  \<^verbatim>\<open>unsupported data type: \<close> followed by the argument's value in the default format of
  \<^verbatim>\<open>fmt\<close>. It is the same for any position and any type with the same text.
\<close>

theorem unsupported_error_message:
  assumes "list_all supported pre" and "\<not> supported a"
  shows "fst (SendCommands sc (pre @ a # post) w)
           = Some (Errorf (''unsupported data type: '' @ Sprint_v sc a))
       \<and> (list_all supported pre' \<and> \<not> supported a' \<and> Sprint_v sc a' = Sprint_v sc a \<longrightarrow>
            fst (SendCommands sc (pre' @ a' # post') w') = fst (SendCommands sc (pre @ a # post) w))"
proof -
  have 1: "fst (SendCommands sc (pre @ a # post) w)
           = Some (Errorf (''unsupported data type: '' @ Sprint_v sc a))"
    unfolding SendCommands_reject [OF assms] by (simp add: unsupported_error_def)
  have "fst (SendCommands sc (pre' @ a' # post') w') = fst (SendCommands sc (pre @ a # post) w)"
    if "list_all supported pre'" and "\<not> supported a'" and "Sprint_v sc a' = Sprint_v sc a"
    unfolding SendCommands_reject [OF assms] SendCommands_reject [OF that(1,2)]
    using that(3) by (simp add: unsupported_error_def)
  with 1 show ?thesis by blast
qed

text \<open>
  The amended claim C8 at a slice of strings between two supported arguments.
\<close>

theorem unsupported_error_message_witness:
  "list_all supported [GoString ''k''] \<and> \<not> supported (GoStrings [''a'', ''b''])
   \<and> fst (SendCommands strconv_unused [GoString ''k'', GoStrings [''a'', ''b''], GoBool True]
            (NewWriter empty_sink))
       = Some (Errorf ''unsupported data type: [a b]'')"
proof -
  have pre: "list_all supported [GoString ''k'']" and a: "\<not> supported (GoStrings [''a'', ''b''])"
    by simp_all
  from unsupported_error_message [OF pre a, of strconv_unused "[GoBool True]" "NewWriter empty_sink"]
  have "fst (SendCommands strconv_unused ([GoString ''k''] @ GoStrings [''a'', ''b''] # [GoBool True])
            (NewWriter empty_sink))
       = Some (Errorf (''unsupported data type: '' @ Sprint_v strconv_unused (GoStrings [''a'', ''b''])))"
    by blast
  with pre a show ?thesis by simp
qed

text \<open>
  Claim C9. Of the integer types, \<^verbatim>\<open>int\<close> and \<^verbatim>\<open>int64\<close> are accepted and written;
  an argument of any other integer type, signed or unsigned, reaches the default branch
  and the call returns the unsupported-type error.
\<close>

theorem only_int_and_int64_accepted:
  assumes "integer_shape a" and "list_all supported pre"
  shows "(a \<in> range GoInt \<union> range GoInt64 \<longrightarrow> healthy w \<and> list_all supported post \<longrightarrow>
            SendCommands sc (pre @ a # post) w =
              (None, sent w (command_frame (map (the \<circ> payload sc) (pre @ a # post)))))
       \<and> (a \<notin> range GoInt \<union> range GoInt64 \<longrightarrow>
            fst (SendCommands sc (pre @ a # post) w)
              = Some (Errorf (''unsupported data type: '' @ Sprint_v sc a)))"
proof (cases "a \<in> range GoInt \<union> range GoInt64")
  case True
  then have "supported a" by auto
  then have "SendCommands sc (pre @ a # post) w =
               (None, sent w (command_frame (map (the \<circ> payload sc) (pre @ a # post))))"
    if "healthy w" "list_all supported post"
    using that assms(2) by (intro SendCommands_healthy) simp_all
  with True show ?thesis by blast
next
  case False
  with assms(1) have "\<not> supported a"
    by (cases a) auto
  from SendCommands_reject [OF assms(2) this, of sc post w] False
  show ?thesis by (simp add: unsupported_error_def)
qed

text \<open>
  Claim C9 at a 32-bit integer, which is rejected, and a native integer, which is sent.
\<close>

theorem only_int_and_int64_accepted_witness:
  "integer_shape (GoInt32 7) \<and> integer_shape (GoInt 7) \<and> list_all supported []
   \<and> GoInt32 7 \<notin> range GoInt \<union> range GoInt64
   \<and> GoInt 7 \<in> range GoInt \<union> range GoInt64
   \<and> healthy (NewWriter empty_sink)
   \<and> fst (SendCommands strconv_unused [GoInt32 7] (NewWriter empty_sink))
        = Some (Errorf ''unsupported data type: 7'')
   \<and> SendCommands strconv_unused [GoInt 7] (NewWriter empty_sink) =
        (None, \<lparr>buf = [], bufsize = 4096, err = None,
                 wr = \<lparr>delivered = ''*1'' @ CRLF @ ''$1'' @ CRLF @ ''7'' @ CRLF, room = None\<rparr>\<rparr>)"
proof -
  have s1: "integer_shape (GoInt32 7)" and s2: "integer_shape (GoInt 7)"
    and nil: "list_all supported []"
    and out: "GoInt32 7 \<notin> range GoInt \<union> range GoInt64"
    and inn: "GoInt 7 \<in> range GoInt \<union> range GoInt64"
    by auto
  from only_int_and_int64_accepted [OF s1 nil, of "NewWriter empty_sink" "[]" strconv_unused] out
  have "fst (SendCommands strconv_unused ([] @ GoInt32 7 # []) (NewWriter empty_sink))
          = Some (Errorf (''unsupported data type: '' @ Sprint_v strconv_unused (GoInt32 7)))"
    by blast
  then have 1: "fst (SendCommands strconv_unused [GoInt32 7] (NewWriter empty_sink))
          = Some (Errorf ''unsupported data type: 7'')"
    by (simp add: frame_eval)
  from only_int_and_int64_accepted [OF s2 nil, of "NewWriter empty_sink" "[]" strconv_unused] inn
    healthy_NewWriter
  have "SendCommands strconv_unused ([] @ GoInt 7 # []) (NewWriter empty_sink) =
          (None, sent (NewWriter empty_sink)
             (command_frame (map (the \<circ> payload strconv_unused) ([] @ GoInt 7 # []))))"
    by simp
  then have 2: "SendCommands strconv_unused [GoInt 7] (NewWriter empty_sink) =
        (None, \<lparr>buf = [], bufsize = 4096, err = None,
                 wr = \<lparr>delivered = ''*1'' @ CRLF @ ''$1'' @ CRLF @ ''7'' @ CRLF, room = None\<rparr>\<rparr>)"
    by (simp add: sent_NewWriter FormatInt_def frame_eval)
  from s1 s2 nil out inn healthy_NewWriter 1 2 show ?thesis by blast
qed



end
